theory Spec2Isabelle
  imports Main "HOL-Library.Signed_Division"
begin

section \<open>Constants of fs\_helpers.h\<close>

definition ADC_BITS :: nat where
  "ADC_BITS = 12"

definition ADC_MAX :: int where
  "ADC_MAX = 2 ^ ADC_BITS - 1"

definition SAMPLES :: int where
  "SAMPLES = 8"

text \<open>Channel numbers behind \<open>ADC_CHANNEL_3\<close> and \<open>ADC_CHANNEL_4\<close>.\<close>

definition ADC_CH_POT :: nat where
  "ADC_CH_POT = 3"

definition ADC_CH_THERMISTOR :: nat where
  "ADC_CH_THERMISTOR = 4"

section \<open>Machine integers\<close>

text \<open>
  The program is built for the ESP32 family (ESP-IDF, FreeRTOS), whose ABI is ILP32:
  \<open>int\<close> and \<open>long\<close> are both 32-bit two's complement. Values are kept as \<open>int\<close> and
  every addition that can leave the range is reduced by \<open>wrap32\<close>. C's \<open>/\<close> truncates
  towards zero, which is \<open>sdiv\<close>.
\<close>

definition wrap32 :: "int \<Rightarrow> int" where
  "wrap32 x = (x + 2 ^ 31) mod 2 ^ 32 - 2 ^ 31"

section \<open>The world outside the program\<close>

text \<open>
  Status codes of the ADC driver: \<open>ESP_OK\<close> or a failure code.
\<close>

datatype esp_err_t = ESP_OK | ESP_ERR_INVALID_ARG | ESP_ERR_TIMEOUT

text \<open>
  One hardware conversion as \<open>adc_oneshot_read\<close> delivers it: the returned status, and
  the value written through the \<open>out_raw\<close> pointer, if the driver wrote one.
\<close>

datatype conversion = Conversion (status: esp_err_t) (stored: "int option")

datatype esp_log_level_t = ESP_LOG_NONE | ESP_LOG_ERROR | ESP_LOG_WARN | ESP_LOG_INFO
  | ESP_LOG_DEBUG | ESP_LOG_VERBOSE

text \<open>
  The state threaded through every function:
  \<^item> \<open>files\<close>: the SPIFFS store, path to bytes;
  \<^item> \<open>store_ok\<close>: whether \<open>fopen\<close> can obtain a handle for a path (mounted, handle
    table not full, ...);
  \<^item> \<open>open_files\<close>: the paths of the \<open>FILE\<close> handles currently open;
  \<^item> \<open>console\<close>: the bytes written to \<open>stdout\<close> (the serial link);
  \<^item> \<open>adc_feed\<close>: what the k-th conversion on a channel delivers, \<open>adc_reads\<close>: the
    number of conversions performed so far;
  \<^item> \<open>delays\<close>: one entry per \<open>vTaskDelay\<close>, holding the milliseconds requested and the
    file handles that were open while the task was suspended;
  \<^item> \<open>log_level\<close>: the verbosity set for every tag by \<open>esp_log_level_set("*", _)\<close>.
\<close>

record world =
  files :: "string \<rightharpoonup> string"
  store_ok :: "string \<Rightarrow> bool"
  open_files :: "string list"
  console :: string
  adc_feed :: "nat \<Rightarrow> nat \<Rightarrow> conversion"
  adc_reads :: nat
  delays :: "(int \<times> string list) list"
  log_level :: esp_log_level_t

definition vTaskDelay :: "int \<Rightarrow> world \<Rightarrow> world" where
  "vTaskDelay ms w = w\<lparr>delays := delays w @ [(ms, open_files w)]\<rparr>"

text \<open>
  \<open>adc_oneshot_read(adc1_handle, ch, &raw)\<close>: consumes the next conversion of the feed.
  The result is the status and the content of \<open>raw\<close> afterwards: the stored value, or
  the previous content when the driver stored nothing.
\<close>

definition adc_oneshot_read :: "nat \<Rightarrow> int \<Rightarrow> world \<Rightarrow> esp_err_t \<times> int \<times> world" where
  "adc_oneshot_read ch raw w =
     (let c = adc_feed w ch (adc_reads w)
      in (status c, (case stored c of None \<Rightarrow> raw | Some v \<Rightarrow> v),
          w\<lparr>adc_reads := adc_reads w + 1\<rparr>))"

section \<open>adc\_read\_avg\<close>

text \<open>
  The only way the program can stop abnormally inside the functions modelled here: the
  integer division of \<open>adc_read_avg\<close> with a zero divisor.
\<close>

datatype fault = IntegerDivideByZero

text \<open>
  The \<open>for\<close> loop of \<open>adc_read_avg\<close>, from counter \<open>i\<close> with \<open>acc\<close> for the variable
  \<open>sum\<close> (a \<open>long\<close>). The status returned by \<open>adc_oneshot_read\<close> is dropped, as in the source.
\<close>

function adc_read_avg_loop :: "nat \<Rightarrow> int \<Rightarrow> int \<Rightarrow> int \<Rightarrow> world \<Rightarrow> int \<times> world" where
  "adc_read_avg_loop ch samples i acc w =
     (if i < samples then
        (case adc_oneshot_read ch 0 w of
           (err, raw, w1) \<Rightarrow>
             adc_read_avg_loop ch samples (i + 1) (wrap32 (acc + raw)) (vTaskDelay 2 w1))
      else (acc, w))"
  by pat_completeness auto
termination
  by (relation "measure (\<lambda>(ch, samples, i, acc, w). nat (samples - i))") auto

declare adc_read_avg_loop.simps [simp del]

definition adc_read_avg :: "nat \<Rightarrow> int \<Rightarrow> world \<Rightarrow> fault + int \<times> world" where
  "adc_read_avg ch samples w =
     (case adc_read_avg_loop ch samples 0 0 w of
        (acc, w1) \<Rightarrow>
          if samples = 0 then Inl IntegerDivideByZero
          else Inr (wrap32 (acc sdiv samples), w1))"

text \<open>
  What the variable \<open>raw\<close> holds after one conversion of the loop: it starts at 0 and
  takes the stored value when there is one.
\<close>

definition raw_of :: "conversion \<Rightarrow> int" where
  "raw_of c = (case stored c of None \<Rightarrow> 0 | Some v \<Rightarrow> v)"

text \<open>
  The accumulator after \<open>n\<close> more additions of the values \<open>f k\<close>, \<open>f (k + 1)\<close>, ...,
  each addition in 32-bit arithmetic.
\<close>

primrec raw_sum :: "(nat \<Rightarrow> int) \<Rightarrow> nat \<Rightarrow> nat \<Rightarrow> int \<Rightarrow> int" where
  "raw_sum f k 0 acc = acc"
| "raw_sum f k (Suc n) acc = raw_sum f (Suc k) n (wrap32 (acc + f k))"

section \<open>Files and the console\<close>

text \<open>
  A \<open>FILE\<close> stream: its path, the bytes written to it and not yet flushed to the store,
  and (for a stream opened for reading) the bytes not yet read. The stdio buffer is
  taken large enough to hold what is written between two flushes.
\<close>

record FILE =
  fpath :: string
  wbuf :: string
  unread :: string

definition file_bytes :: "world \<Rightarrow> string \<Rightarrow> string" where
  "file_bytes w path = (case files w path of None \<Rightarrow> [] | Some c \<Rightarrow> c)"

text \<open>\<open>fopen(path, "a")\<close>: creates the file when it is absent; \<open>None\<close> is \<open>NULL\<close>.\<close>

definition fopen_a :: "string \<Rightarrow> world \<Rightarrow> (FILE \<times> world) option" where
  "fopen_a path w =
     (if store_ok w path then
        Some (\<lparr>fpath = path, wbuf = [], unread = []\<rparr>,
              w\<lparr>files := (files w)(path \<mapsto> file_bytes w path),
                open_files := path # open_files w\<rparr>)
      else None)"

text \<open>\<open>fopen(path, "r")\<close>: fails on a missing file as well.\<close>

definition fopen_r :: "string \<Rightarrow> world \<Rightarrow> (FILE \<times> world) option" where
  "fopen_r path w =
     (if store_ok w path then
        (case files w path of
           None \<Rightarrow> None
         | Some c \<Rightarrow>
             Some (\<lparr>fpath = path, wbuf = [], unread = c\<rparr>,
                   w\<lparr>open_files := path # open_files w\<rparr>))
      else None)"

text \<open>\<open>fseek(f, 0, SEEK_END)\<close> followed by \<open>ftell(f)\<close>: the size of the file.\<close>

definition ftell_end :: "FILE \<Rightarrow> world \<Rightarrow> int" where
  "ftell_end f w = int (length (file_bytes w (fpath f)) + length (wbuf f))"

definition fprintf :: "FILE \<Rightarrow> string \<Rightarrow> FILE" where
  "fprintf f s = f\<lparr>wbuf := wbuf f @ s\<rparr>"

definition fflush :: "FILE \<Rightarrow> world \<Rightarrow> FILE \<times> world" where
  "fflush f w =
     (if wbuf f = [] then (f, w)
      else (f\<lparr>wbuf := []\<rparr>,
            w\<lparr>files := (files w)(fpath f \<mapsto> file_bytes w (fpath f) @ wbuf f)\<rparr>))"

definition fclose :: "FILE \<Rightarrow> world \<Rightarrow> world" where
  "fclose f w =
     (case fflush f w of
        (f1, w1) \<Rightarrow> w1\<lparr>open_files := remove1 (fpath f) (open_files w1)\<rparr>)"

text \<open>\<open>fread(buf, 1, n, f)\<close>: the bytes read (their number is the return value).\<close>

definition fread :: "nat \<Rightarrow> FILE \<Rightarrow> string \<times> FILE" where
  "fread n f = (take n (unread f), f\<lparr>unread := drop n (unread f)\<rparr>)"

text \<open>\<open>printf\<close> of an already formatted text, and \<open>fwrite(buf, 1, n, stdout)\<close>.\<close>

definition printf :: "string \<Rightarrow> world \<Rightarrow> world" where
  "printf s w = w\<lparr>console := console w @ s\<rparr>"

definition fwrite_stdout :: "string \<Rightarrow> world \<Rightarrow> world" where
  "fwrite_stdout buf w = w\<lparr>console := console w @ buf\<rparr>"

definition esp_log_level_set :: "esp_log_level_t \<Rightarrow> world \<Rightarrow> world" where
  "esp_log_level_set l w = w\<lparr>log_level := l\<rparr>"

section \<open>Formatting\<close>

definition digit_char :: "nat \<Rightarrow> char" where
  "digit_char d = ''0123456789'' ! (d mod 10)"

function show_nat :: "nat \<Rightarrow> string" where
  "show_nat n = (if n < 10 then [digit_char n] else show_nat (n div 10) @ [digit_char (n mod 10)])"
  by pat_completeness auto
termination
  by (relation "measure (\<lambda>n. n)") auto

declare show_nat.simps [simp del]

text \<open>The conversion \<open>%d\<close>.\<close>

definition show_int :: "int \<Rightarrow> string" where
  "show_int i = (if i < 0 then ''-'' @ show_nat (nat (- i)) else show_nat (nat i))"

text \<open>
  A C \<open>float\<close> as \<open>printf\<close> receives it: a finite value of magnitude \<open>m * 2 ^ e\<close>
  (sign bit, mantissa, exponent), an infinity or a NaN, each with its sign bit.
\<close>

datatype c_float = Finite bool nat int | Infinity bool | NaN bool

text \<open>
  The number of hundredths nearest to \<open>m * 2 ^ e\<close>, ties to the even neighbour: the
  digits that \<open>%.2f\<close> prints.
\<close>

definition hundredths :: "nat \<Rightarrow> int \<Rightarrow> nat" where
  "hundredths m e =
     (if 0 \<le> e then m * 2 ^ nat e * 100
      else (let den = 2 ^ nat (- e); q = (m * 100) div den; r = (m * 100) mod den
            in if den < 2 * r \<or> (2 * r = den \<and> odd q) then q + 1 else q))"

text \<open>The conversion \<open>%.2f\<close>.\<close>

fun fmt_2f :: "c_float \<Rightarrow> string" where
  "fmt_2f (Finite neg m e) =
     (let h = hundredths m e
      in (if neg then ''-'' else []) @ show_nat (h div 100) @ ''.''
           @ [digit_char (h div 10 mod 10), digit_char (h mod 10)])"
| "fmt_2f (Infinity neg) = (if neg then ''-'' else []) @ ''inf''"
| "fmt_2f (NaN neg) = (if neg then ''-'' else []) @ ''nan''"

section \<open>log\_thermistor\_samples\_csv\<close>

definition header_line :: string where
  "header_line = ''index,temperature_C''"

text \<open>
  The text of the \<open>fprintf\<close> of one data row, without its newline: format
  \<open>#%d, %.2f\<close>, the degree sign (the two bytes C2 B0 of the source file) and \<open>C\<close>.
\<close>

definition row_line :: "int \<Rightarrow> c_float \<Rightarrow> string" where
  "row_line i temperature =
     ''#'' @ show_int i @ '', '' @ fmt_2f temperature @ [CHR 0xC2, CHR 0xB0] @ ''C''"

text \<open>
  The loop of \<open>log_thermistor_samples_csv\<close> from counter \<open>i\<close>. The Beta-equation
  arithmetic between the averaged reading and \<open>temperature\<close> is single-precision
  floating point with \<open>logf\<close>; it is the parameter \<open>celsius\<close>, from \<open>raw\<close> to the
  \<open>float\<close> that is printed.
\<close>

function log_thermistor_loop ::
  "(int \<Rightarrow> c_float) \<Rightarrow> int \<Rightarrow> int \<Rightarrow> int \<Rightarrow> FILE \<Rightarrow> world \<Rightarrow> fault + FILE \<times> world" where
  "log_thermistor_loop celsius samples period i f w =
     (if i < samples then
        (case adc_read_avg ADC_CH_THERMISTOR SAMPLES
                (printf (''Collecting sample '' @ show_int (i + 1) @ '' of ''
                           @ show_int samples @ ''...'' @ [CHR ''\<newline>'']) w) of
           Inl e \<Rightarrow> Inl e
         | Inr (raw, w1) \<Rightarrow>
             (case fflush (fprintf f (row_line i (celsius raw) @ [CHR ''\<newline>''])) w1 of
                (f1, w2) \<Rightarrow>
                  log_thermistor_loop celsius samples period (i + 1) f1 (vTaskDelay period w2)))
      else Inr (f, w))"
  by pat_completeness auto
termination
  by (relation "measure (\<lambda>(celsius, samples, period, i, f, w). nat (samples - i))") auto

declare log_thermistor_loop.simps [simp del]

definition log_thermistor_samples_csv ::
  "(int \<Rightarrow> c_float) \<Rightarrow> string \<Rightarrow> int \<Rightarrow> int \<Rightarrow> world \<Rightarrow> fault + world" where
  "log_thermistor_samples_csv celsius path samples period w =
     (case fopen_a path w of
        None \<Rightarrow> Inr (printf (''open for append failed: '' @ path @ [CHR ''\<newline>'']) w)
      | Some (f, w1) \<Rightarrow>
          (case log_thermistor_loop celsius samples period 0
                  (if ftell_end f w1 = 0 then fprintf f (header_line @ [CHR ''\<newline>'']) else f)
                  w1 of
             Inl e \<Rightarrow> Inl e
           | Inr (f2, w2) \<Rightarrow> Inr (fclose f2 w2)))"

section \<open>print\_csv\_file\_only\<close>

text \<open>The \<open>while\<close> loop: chunks of \<open>sizeof(buf) = 256\<close> bytes until \<open>fread\<close> returns 0.\<close>

function copy_chunks :: "FILE \<Rightarrow> world \<Rightarrow> FILE \<times> world" where
  "copy_chunks f w =
     (case fread 256 f of
        (buf, f1) \<Rightarrow>
          if 0 < length buf then copy_chunks f1 (fwrite_stdout buf w) else (f1, w))"
  by pat_completeness auto
termination
  by (relation "measure (\<lambda>(f, w). length (unread f))") (auto simp: fread_def)

declare copy_chunks.simps [simp del]

definition print_csv_file_only :: "string \<Rightarrow> world \<Rightarrow> world" where
  "print_csv_file_only path w =
     (case fopen_r path (esp_log_level_set ESP_LOG_WARN w) of
        Some (f, w1) \<Rightarrow> (case copy_chunks f w1 of (f1, w2) \<Rightarrow> fclose f1 w2)
      | None \<Rightarrow>
          printf (''error,message'' @ [CHR 0x0D, CHR ''\<newline>''] @ '',Could not open file''
                    @ [CHR 0x0D, CHR ''\<newline>''])
            (esp_log_level_set ESP_LOG_WARN w))"

section \<open>Test benches and derived notions\<close>

text \<open>
  A freshly mounted store with no file, nothing printed, no conversion performed yet,
  driven by a given ADC feed.
\<close>

definition bench_world :: "(nat \<Rightarrow> nat \<Rightarrow> conversion) \<Rightarrow> world" where
  "bench_world feed =
     \<lparr>files = Map.empty, store_ok = (\<lambda>p. True), open_files = [], console = [],
      adc_feed = feed, adc_reads = 0, delays = [], log_level = ESP_LOG_INFO\<rparr>"

text \<open>Every conversion succeeds and stores \<open>v\<close>.\<close>

definition steady_feed :: "int \<Rightarrow> nat \<Rightarrow> nat \<Rightarrow> conversion" where
  "steady_feed v ch k = Conversion ESP_OK (Some v)"

text \<open>The first conversion times out and stores nothing; the later ones store 4095.\<close>

definition first_fails_feed :: "nat \<Rightarrow> nat \<Rightarrow> conversion" where
  "first_fails_feed ch k =
     (if k = 0 then Conversion ESP_ERR_TIMEOUT None else Conversion ESP_OK (Some 4095))"

text \<open>
  The averaged reading that the \<open>j\<close>-th iteration of the logging loop obtains: what
  \<open>adc_read_avg\<close> returns when \<open>8 * j\<close> further conversions have been consumed.
\<close>

definition reading_at :: "world \<Rightarrow> nat \<Rightarrow> int" where
  "reading_at w j =
     (case adc_read_avg ADC_CH_THERMISTOR SAMPLES (w\<lparr>adc_reads := adc_reads w + 8 * j\<rparr>) of
        Inl e \<Rightarrow> 0
      | Inr (raw, w1) \<Rightarrow> raw)"

text \<open>The \<open>n\<close> data rows with indices \<open>i\<close>, \<open>i + 1\<close>, ..., each with its newline.\<close>

definition logged_rows :: "(int \<Rightarrow> c_float) \<Rightarrow> world \<Rightarrow> int \<Rightarrow> nat \<Rightarrow> string" where
  "logged_rows celsius w i n =
     concat (map (\<lambda>j. row_line (i + int j) (celsius (reading_at w j)) @ [CHR ''\<newline>''])
               [0..<n])"

text \<open>The path of the thermistor log in fs\_helpers.h.\<close>

definition TEMP_PATH :: string where
  "TEMP_PATH = ''/spiffs/thermodata.csv''"

text \<open>
  The single-precision number nearest to 24.98: \<open>13096714 * 2 ^ -19\<close>, that is
  24.979999542236328125.
\<close>

definition float_24_98 :: c_float where
  "float_24_98 = Finite False 13096714 (- 19)"

text \<open>A conversion for test benches: every reading is reported as 24.98 degrees.\<close>

definition room_celsius :: "int \<Rightarrow> c_float" where
  "room_celsius raw = float_24_98"

text \<open>The lines of a text, each without its terminating newline.\<close>

fun split_lines :: "string \<Rightarrow> string list" where
  "split_lines [] = []"
| "split_lines (c # cs) =
     (if c = CHR ''\<newline>'' then [] # split_lines cs
      else (case split_lines cs of [] \<Rightarrow> [[c]] | l # ls \<Rightarrow> (c # l) # ls))"

text \<open>
  The life of a log file: consecutive calls of \<open>log_thermistor_samples_csv\<close> on the same
  path, each with its own \<open>samples\<close> and \<open>period\<close>.
\<close>

fun log_runs :: "(int \<Rightarrow> c_float) \<Rightarrow> string \<Rightarrow> (int \<times> int) list \<Rightarrow> world \<Rightarrow> fault + world" where
  "log_runs celsius path [] w = Inr w"
| "log_runs celsius path ((samples, period) # calls) w =
     (case log_thermistor_samples_csv celsius path samples period w of
        Inl e \<Rightarrow> Inl e
      | Inr w1 \<Rightarrow> log_runs celsius path calls w1)"

text \<open>
  A well-formed log: not empty, every line terminated, the first line the header, and
  the header on no other line.
\<close>

definition header_once :: "string \<Rightarrow> bool" where
  "header_once c =
     (c \<noteq> [] \<and> last c = CHR ''\<newline>'' \<and> hd (split_lines c) = header_line
      \<and> count_list (split_lines c) header_line = 1)"

section \<open>Properties of adc\_read\_avg\<close>

lemma adc_read_avg_loop_closed:
  "adc_read_avg_loop ch samples i acc w =
     (raw_sum (\<lambda>k. raw_of (adc_feed w ch k)) (adc_reads w) (nat (samples - i)) acc,
      w\<lparr>adc_reads := adc_reads w + nat (samples - i),
        delays := delays w @ replicate (nat (samples - i)) (2, open_files w)\<rparr>)"
proof (induction ch samples i acc w rule: adc_read_avg_loop.induct)
  case (1 ch samples i acc w)
  show ?case
  proof (cases "i < samples")
    case False
    then show ?thesis by (simp add: adc_read_avg_loop.simps [of ch samples i acc w])
  next
    case True
    then have n: "nat (samples - i) = Suc (nat (samples - (i + 1)))" by simp
    show ?thesis
      using "1.IH" True
      apply (subst adc_read_avg_loop.simps)
      apply (simp add: adc_oneshot_read_def vTaskDelay_def raw_of_def n Let_def)
      done
  qed
qed

lemma adc_read_avg_closed:
  "adc_read_avg ch samples w =
     (if samples = 0 then Inl IntegerDivideByZero
      else Inr (wrap32 (raw_sum (\<lambda>k. raw_of (adc_feed w ch k)) (adc_reads w) (nat samples) 0
                         sdiv samples),
                w\<lparr>adc_reads := adc_reads w + nat samples,
                  delays := delays w @ replicate (nat samples) (2, open_files w)\<rparr>))"
  by (simp add: adc_read_avg_def adc_read_avg_loop_closed)

lemma wrap32_id: "- (2 ^ 31) \<le> x \<Longrightarrow> x < 2 ^ 31 \<Longrightarrow> wrap32 x = x"
  by (simp add: wrap32_def)

lemma wrap32_wrap32_add: "wrap32 (wrap32 a + b) = wrap32 (a + b)"
proof -
  define m :: int where "m = 2 ^ 32"
  define h :: int where "h = 2 ^ 31"
  have "wrap32 a + b + h = (a + h) mod m + b"
    by (simp add: wrap32_def m_def h_def)
  then have "(wrap32 a + b + h) mod m = ((a + h) mod m + b) mod m"
    by (rule arg_cong)
  also have "\<dots> = (a + h + b) mod m"
    by (rule mod_add_left_eq)
  also have "a + h + b = a + b + h"
    by simp
  finally show ?thesis
    by (simp add: wrap32_def m_def h_def)
qed

text \<open>After at least one addition the accumulator is the exact sum, reduced to 32 bits.\<close>

lemma raw_sum_wrap:
  "0 < n \<Longrightarrow> raw_sum f k n acc = wrap32 (acc + (\<Sum>j<n. f (k + j)))"
proof (induction n arbitrary: k acc)
  case 0
  then show ?case by simp
next
  case (Suc n)
  show ?case
  proof (cases "n = 0")
    case True
    then show ?thesis by simp
  next
    case False
    then have "raw_sum f (Suc k) n (wrap32 (acc + f k))
        = wrap32 (wrap32 (acc + f k) + (\<Sum>j<n. f (Suc k + j)))"
      using Suc.IH by simp
    also have "\<dots> = wrap32 (acc + f k + (\<Sum>j<n. f (Suc k + j)))"
      by (rule wrap32_wrap32_add)
    also have "acc + f k + (\<Sum>j<n. f (Suc k + j)) = acc + (\<Sum>j<Suc n. f (k + j))"
      using sum.lessThan_Suc_shift [of "\<lambda>j. f (k + j)" n] by simp
    finally show ?thesis by simp
  qed
qed

text \<open>
  While \<open>samples * 4095\<close> fits the 32-bit accumulator (at most 524416 samples), in-range
  conversions give the truncated mean, itself in range.
\<close>

lemma adc_read_avg_mean:
  assumes "1 \<le> samples" and "samples \<le> 524416"
    and "\<forall>j < nat samples. \<exists>v. stored (adc_feed w ch (adc_reads w + j)) = Some v
           \<and> 0 \<le> v \<and> v \<le> ADC_MAX"
  shows "\<exists>r w'. adc_read_avg ch samples w = Inr (r, w')
           \<and> r = (\<Sum>j<nat samples. raw_of (adc_feed w ch (adc_reads w + j))) div samples
           \<and> 0 \<le> r \<and> r \<le> ADC_MAX"
proof -
  let ?g = "\<lambda>j. raw_of (adc_feed w ch (adc_reads w + j))"
  let ?S = "\<Sum>j<nat samples. ?g j"
  have g: "0 \<le> ?g j \<and> ?g j \<le> 4095" if "j < nat samples" for j
    using assms(3) that by (auto simp: raw_of_def ADC_MAX_def ADC_BITS_def)
  have lo: "0 \<le> ?S" by (rule sum_nonneg) (use g in auto)
  have "?S \<le> (\<Sum>j<nat samples. 4095)" by (rule sum_mono) (use g in auto)
  then have hi: "?S \<le> samples * 4095" using assms(1) by simp
  have w: "wrap32 ?S = ?S" using lo hi assms(2) by (intro wrap32_id) auto
  have sd: "?S sdiv samples = ?S div samples"
    using lo assms(1) by (simp add: signed_divide_int_def sgn_if)
  have r0: "0 \<le> ?S div samples" using lo assms(1) by (simp add: pos_imp_zdiv_nonneg_iff)
  have "?S div samples \<le> (samples * 4095) div samples"
    using hi assms(1) by (intro zdiv_mono1) auto
  then have r1: "?S div samples \<le> 4095" using assms(1) by simp
  have w2: "wrap32 (?S div samples) = ?S div samples"
    using r0 r1 by (intro wrap32_id) auto
  have "raw_sum (\<lambda>k. raw_of (adc_feed w ch k)) (adc_reads w) (nat samples) 0 = ?S"
    using assms(1) w by (simp add: raw_sum_wrap)
  then show ?thesis
    using assms(1) r0 r1 sd w2
    by (simp add: adc_read_avg_closed ADC_MAX_def ADC_BITS_def)
qed

text \<open>
  Claim C3. The claim: for every count of at least 1, when every conversion of the call
  delivers a value between 0 and \<open>ADC_MAX\<close>, \<open>adc_read_avg\<close> returns the truncated
  mean of these values, between 0 and \<open>ADC_MAX\<close>. The code at 524417 samples, every
  conversion succeeding with \<open>ADC_MAX = 4095\<close>: the true sum 2147487615 exceeds the
  largest \<open>long\<close> 2147483647, the accumulator wraps to -2147479681, and the call
  returns -4094 instead of 4095.
\<close>

theorem adc_read_avg_overflows:
  "adc_read_avg ADC_CH_THERMISTOR 524417 (bench_world (steady_feed ADC_MAX)) =
     Inr (- 4094, (bench_world (steady_feed ADC_MAX))
                    \<lparr>adc_reads := 524417, delays := replicate 524417 (2, [])\<rparr>)"
  apply (simp add: adc_read_avg_closed bench_world_def steady_feed_def raw_of_def raw_sum_wrap
      ADC_MAX_def ADC_BITS_def)
  apply (simp add: wrap32_def signed_divide_int_def)
  done

text \<open>
  Claim C5, as stated: an error reported by the peripheral on a conversion makes
  \<open>adc_read_avg\<close> fail and skip the remaining iterations. It does not: with a first
  conversion that times out and a second that stores 4095, a call for two samples
  performs both conversions and returns \<open>(0 + 4095) / 2 = 2047\<close>.
\<close>

theorem adc_read_avg_error_not_propagated:
  "status (adc_feed (bench_world first_fails_feed) ADC_CH_POT 0) = ESP_ERR_TIMEOUT
   \<and> adc_read_avg ADC_CH_POT 2 (bench_world first_fails_feed) =
       Inr (2047, (bench_world first_fails_feed)\<lparr>adc_reads := 2, delays := [(2, []), (2, [])]\<rparr>)"
  apply (simp add: adc_read_avg_closed bench_world_def first_fails_feed_def raw_of_def
      raw_sum_wrap)
  apply (simp add: wrap32_def signed_divide_int_def numeral_2_eq_2)
  done

text \<open>
  Claim C5, amended: \<open>adc_read_avg\<close> never looks at the status of a conversion. For
  every nonzero \<open>samples\<close> it returns a value, after exactly \<open>samples\<close> conversions
  (none when \<open>samples\<close> is negative) and as many 2 ms delays; the value is the 32-bit sum
  of what the variable \<open>raw\<close> held after each conversion (the stored value, 0 where the
  driver stored nothing), divided by \<open>samples\<close>. A failed conversion is neither
  reported nor retried, and the iterations after it still run.
\<close>

theorem adc_read_avg_ignores_status:
  "samples \<noteq> 0 \<Longrightarrow>
   adc_read_avg ch samples w =
     Inr (wrap32 (raw_sum (\<lambda>k. raw_of (adc_feed w ch k)) (adc_reads w) (nat samples) 0
                    sdiv samples),
          w\<lparr>adc_reads := adc_reads w + nat samples,
            delays := delays w @ replicate (nat samples) (2, open_files w)\<rparr>)"
  by (simp add: adc_read_avg_closed)

theorem adc_read_avg_ignores_status_witness:
  "(2 :: int) \<noteq> 0
   \<and> adc_read_avg ADC_CH_POT 2 (bench_world first_fails_feed) =
       Inr (wrap32 (wrap32 (wrap32 0 + 4095) sdiv 2),
            (bench_world first_fails_feed)\<lparr>adc_reads := 2, delays := [(2, []), (2, [])]\<rparr>)"
  using adc_read_avg_ignores_status [of 2 ADC_CH_POT "bench_world first_fails_feed"]
  by (simp add: bench_world_def first_fails_feed_def raw_of_def numeral_2_eq_2)

text \<open>
  Claim C10, as stated: the division \<open>sum / samples\<close> has a nonzero divisor exactly when
  \<open>samples\<close> is at least 1. It has one at \<open>samples = -1\<close> as well: the loop body never
  runs and the call returns \<open>0 / -1 = 0\<close>.
\<close>

theorem adc_read_avg_negative_count_divides:
  "\<not> 1 \<le> (- 1 :: int)
   \<and> adc_read_avg ADC_CH_POT (- 1) (bench_world (steady_feed 0)) =
       Inr (0, bench_world (steady_feed 0))"
  by (simp add: adc_read_avg_closed bench_world_def wrap32_def)

text \<open>
  Claim C10, amended: \<open>adc_read_avg\<close> has no guard on \<open>samples\<close>, and its division has a
  nonzero divisor exactly when \<open>samples\<close> is not 0. A call with \<open>samples = 0\<close> reaches a
  division by zero, and no other call does; every call with \<open>samples\<close> at least 1
  returns a value; a call with negative \<open>samples\<close> performs no conversion and returns 0.
\<close>

theorem adc_read_avg_division_defined:
  "(adc_read_avg ch samples w = Inl IntegerDivideByZero) = (samples = 0)
   \<and> (1 \<le> samples \<longrightarrow> (\<exists>r w'. adc_read_avg ch samples w = Inr (r, w')))
   \<and> (samples < 0 \<longrightarrow> adc_read_avg ch samples w = Inr (0, w))"
  by (simp add: adc_read_avg_closed wrap32_def)

theorem adc_read_avg_division_defined_witness:
  "adc_read_avg ADC_CH_POT 0 (bench_world (steady_feed 7)) = Inl IntegerDivideByZero
   \<and> (1 :: int) \<le> 8
   \<and> (\<exists>r w'. adc_read_avg ADC_CH_POT 8 (bench_world (steady_feed 7)) = Inr (r, w'))
   \<and> (- 3 :: int) < 0
   \<and> adc_read_avg ADC_CH_POT (- 3) (bench_world (steady_feed 7)) =
       Inr (0, bench_world (steady_feed 7))"
  using adc_read_avg_division_defined [of ADC_CH_POT 0 "bench_world (steady_feed 7)"]
    adc_read_avg_division_defined [of ADC_CH_POT 8 "bench_world (steady_feed 7)"]
    adc_read_avg_division_defined [of ADC_CH_POT "- 3" "bench_world (steady_feed 7)"]
  by simp

section \<open>Properties of log\_thermistor\_samples\_csv\<close>

lemma reading_at_closed:
  "reading_at w j =
     wrap32 (raw_sum (\<lambda>k. raw_of (adc_feed w ADC_CH_THERMISTOR k)) (adc_reads w + 8 * j) 8 0
               sdiv 8)"
  by (simp add: reading_at_def adc_read_avg_closed SAMPLES_def)

lemma reading_at_shift:
  "adc_feed w' = adc_feed w \<Longrightarrow> adc_reads w' = adc_reads w + 8 \<Longrightarrow>
     reading_at w' j = reading_at w (Suc j)"
  by (simp add: reading_at_closed add.assoc)

lemma logged_rows_cong:
  "adc_feed w' = adc_feed w \<Longrightarrow> adc_reads w' = adc_reads w \<Longrightarrow>
     logged_rows celsius w' i n = logged_rows celsius w i n"
  by (simp add: logged_rows_def reading_at_closed)

lemma logged_rows_0: "logged_rows celsius w i 0 = []"
  by (simp add: logged_rows_def)

lemma logged_rows_Suc:
  assumes "adc_feed w' = adc_feed w" and "adc_reads w' = adc_reads w + 8"
  shows "logged_rows celsius w i (Suc n) =
     row_line i (celsius (reading_at w 0)) @ [CHR ''\<newline>'']
       @ logged_rows celsius w' (i + 1) n"
proof -
  have "[0..<Suc n] = 0 # map Suc [0..<n]"
    by (simp add: upt_conv_Cons map_Suc_upt del: upt_Suc)
  then show ?thesis
    unfolding logged_rows_def
    by (simp add: reading_at_shift [OF assms] o_def add.assoc del: upt_Suc)
qed

lemma loop_done:
  "\<not> i < samples \<Longrightarrow> log_thermistor_loop celsius samples period i f w = Inr (f, w)"
  by (simp add: log_thermistor_loop.simps)

text \<open>One iteration: a progress message, eight conversions, one row flushed, one delay.\<close>

lemma loop_step:
  "i < samples \<Longrightarrow>
   log_thermistor_loop celsius samples period i f w =
   log_thermistor_loop celsius samples period (i + 1) (f\<lparr>wbuf := []\<rparr>)
     (w\<lparr>console := console w @ ''Collecting sample '' @ show_int (i + 1) @ '' of ''
                           @ show_int samples @ ''...'' @ [CHR ''\<newline>''],
        adc_reads := adc_reads w + 8,
        files := (files w)(fpath f \<mapsto>
          file_bytes w (fpath f) @ wbuf f @ row_line i (celsius (reading_at w 0))
            @ [CHR ''\<newline>'']),
        delays := delays w @ replicate 8 (2, open_files w) @ [(period, open_files w)]\<rparr>)"
  apply (subst log_thermistor_loop.simps)
  apply (simp add: adc_read_avg_closed SAMPLES_def printf_def fflush_def fprintf_def
       vTaskDelay_def reading_at_closed file_bytes_def)
  done

text \<open>The state after the loop, from any counter, stream and world.\<close>

lemma log_thermistor_loop_closed:
  "n = nat (samples - i) \<Longrightarrow>
   \<exists>f' w'. log_thermistor_loop celsius samples period i f w = Inr (f', w')
     \<and> fpath f' = fpath f
     \<and> file_bytes w' (fpath f) @ wbuf f'
         = file_bytes w (fpath f) @ wbuf f @ logged_rows celsius w i n
     \<and> (n = 0 \<longrightarrow> f' = f \<and> w' = w)
     \<and> (0 < n \<longrightarrow> wbuf f' = [] \<and> files w' (fpath f) \<noteq> None)
     \<and> (\<forall>p. p \<noteq> fpath f \<longrightarrow> files w' p = files w p)
     \<and> open_files w' = open_files w
     \<and> store_ok w' = store_ok w
     \<and> adc_feed w' = adc_feed w
     \<and> adc_reads w' = adc_reads w + 8 * n
     \<and> delays w' = delays w
          @ concat (replicate n (replicate 8 (2, open_files w) @ [(period, open_files w)]))"
proof (induction n arbitrary: i f w)
  case 0
  then have "\<not> i < samples" by simp
  then show ?case by (simp add: loop_done logged_rows_0)
next
  case (Suc n)
  then have lt: "i < samples" and n: "n = nat (samples - (i + 1))" by auto
  let ?f1 = "f\<lparr>wbuf := []\<rparr>"
  let ?w1 = "w\<lparr>console := console w @ ''Collecting sample '' @ show_int (i + 1) @ '' of ''
                           @ show_int samples @ ''...'' @ [CHR ''\<newline>''],
        adc_reads := adc_reads w + 8,
        files := (files w)(fpath f \<mapsto>
          file_bytes w (fpath f) @ wbuf f @ row_line i (celsius (reading_at w 0))
            @ [CHR ''\<newline>'']),
        delays := delays w @ replicate 8 (2, open_files w) @ [(period, open_files w)]\<rparr>"
  obtain f' w' where
    run: "log_thermistor_loop celsius samples period (i + 1) ?f1 ?w1 = Inr (f', w')"
    and path: "fpath f' = fpath ?f1"
    and bytes: "file_bytes w' (fpath ?f1) @ wbuf f'
        = file_bytes ?w1 (fpath ?f1) @ wbuf ?f1 @ logged_rows celsius ?w1 (i + 1) n"
    and zero: "n = 0 \<longrightarrow> f' = ?f1 \<and> w' = ?w1"
    and pos: "0 < n \<longrightarrow> wbuf f' = [] \<and> files w' (fpath ?f1) \<noteq> None"
    and others: "\<forall>p. p \<noteq> fpath ?f1 \<longrightarrow> files w' p = files ?w1 p"
    and opens: "open_files w' = open_files ?w1"
    and store: "store_ok w' = store_ok ?w1"
    and feed: "adc_feed w' = adc_feed ?w1"
    and reads: "adc_reads w' = adc_reads ?w1 + 8 * n"
    and dels: "delays w' = delays ?w1
          @ concat (replicate n (replicate 8 (2, open_files ?w1) @ [(period, open_files ?w1)]))"
    using Suc.IH [OF n, of ?f1 ?w1] by blast
  have rows: "logged_rows celsius w i (Suc n) =
     row_line i (celsius (reading_at w 0)) @ [CHR ''\<newline>'']
       @ logged_rows celsius ?w1 (i + 1) n"
    by (rule logged_rows_Suc) simp_all
  have run': "log_thermistor_loop celsius samples period i f w = Inr (f', w')"
    using run by (simp only: loop_step [OF lt])
  have b': "file_bytes w' (fpath f) @ wbuf f'
      = file_bytes w (fpath f) @ wbuf f @ logged_rows celsius w i (Suc n)"
    using bytes by (simp add: rows file_bytes_def)
  have p': "wbuf f' = [] \<and> files w' (fpath f) \<noteq> None"
    using zero pos by (cases "n = 0") auto
  show ?case
    using run' path b' p' others opens store feed reads dels
    by simp
qed

lemma fclose_closed:
  "files w (fpath f) \<noteq> None \<Longrightarrow>
   fclose f w = w\<lparr>files := (files w)(fpath f \<mapsto> file_bytes w (fpath f) @ wbuf f),
                  open_files := remove1 (fpath f) (open_files w)\<rparr>"
  by (auto simp: fclose_def fflush_def file_bytes_def fun_upd_idem)

text \<open>A whole call whose \<open>fopen\<close> succeeds.\<close>

lemma log_thermistor_closed:
  assumes "store_ok w path"
  shows "\<exists>w'. log_thermistor_samples_csv celsius path samples period w = Inr w'
     \<and> files w' path = Some (file_bytes w path
          @ (if file_bytes w path = [] then header_line @ [CHR ''\<newline>''] else [])
          @ logged_rows celsius w 0 (nat samples))
     \<and> (\<forall>p. p \<noteq> path \<longrightarrow> files w' p = files w p)
     \<and> open_files w' = open_files w
     \<and> store_ok w' = store_ok w
     \<and> adc_feed w' = adc_feed w
     \<and> adc_reads w' = adc_reads w + 8 * nat samples
     \<and> delays w' = delays w
          @ concat (replicate (nat samples)
              (replicate 8 (2, path # open_files w) @ [(period, path # open_files w)]))"
proof -
  let ?f0 = "\<lparr>fpath = path, wbuf = [], unread = []\<rparr>"
  let ?w1 = "w\<lparr>files := (files w)(path \<mapsto> file_bytes w path),
                open_files := path # open_files w\<rparr>"
  let ?f1 = "if ftell_end ?f0 ?w1 = 0 then fprintf ?f0 (header_line @ [CHR ''\<newline>'']) else ?f0"
  have opened: "fopen_a path w = Some (?f0, ?w1)"
    using assms by (simp add: fopen_a_def)
  have f1_path: "fpath ?f1 = path"
    by (simp add: fprintf_def)
  have f1_buf: "wbuf ?f1 = (if file_bytes w path = [] then header_line @ [CHR ''\<newline>''] else [])"
    by (simp add: fprintf_def ftell_end_def file_bytes_def)
  have w1_bytes: "file_bytes ?w1 path = file_bytes w path"
    by (simp add: file_bytes_def)
  obtain f' w' where
    run: "log_thermistor_loop celsius samples period 0 ?f1 ?w1 = Inr (f', w')"
    and path: "fpath f' = fpath ?f1"
    and bytes: "file_bytes w' (fpath ?f1) @ wbuf f'
        = file_bytes ?w1 (fpath ?f1) @ wbuf ?f1 @ logged_rows celsius ?w1 0 (nat samples)"
    and zero: "nat samples = 0 \<longrightarrow> f' = ?f1 \<and> w' = ?w1"
    and pos: "0 < nat samples \<longrightarrow> wbuf f' = [] \<and> files w' (fpath ?f1) \<noteq> None"
    and others: "\<forall>p. p \<noteq> fpath ?f1 \<longrightarrow> files w' p = files ?w1 p"
    and opens: "open_files w' = open_files ?w1"
    and store: "store_ok w' = store_ok ?w1"
    and feed: "adc_feed w' = adc_feed ?w1"
    and reads: "adc_reads w' = adc_reads ?w1 + 8 * nat samples"
    and dels: "delays w' = delays ?w1
          @ concat (replicate (nat samples)
              (replicate 8 (2, open_files ?w1) @ [(period, open_files ?w1)]))"
    using log_thermistor_loop_closed [of "nat samples" samples 0 celsius period ?f1 ?w1]
    by auto
  have exists: "files w' path \<noteq> None"
    using zero pos by (cases "nat samples = 0") (auto simp: f1_path)
  have rows: "logged_rows celsius ?w1 0 (nat samples) = logged_rows celsius w 0 (nat samples)"
    by (rule logged_rows_cong) simp_all
  have result: "log_thermistor_samples_csv celsius path samples period w = Inr (fclose f' w')"
    unfolding log_thermistor_samples_csv_def opened using run by simp
  have fp: "fpath f' = path" using path f1_path by simp
  have closed: "fclose f' w' = w'\<lparr>files := (files w')(path \<mapsto> file_bytes w' path @ wbuf f'),
                  open_files := remove1 path (open_files w')\<rparr>"
    using fclose_closed [of w' f'] exists fp by simp
  have content: "file_bytes w' path @ wbuf f'
      = file_bytes w path @ wbuf ?f1 @ logged_rows celsius w 0 (nat samples)"
    using bytes unfolding f1_path w1_bytes rows .
  show ?thesis
    unfolding result closed
    using content others opens store feed reads dels f1_path
    by (simp add: f1_buf)
qed

section \<open>Lines of the log\<close>

lemma split_lines_line:
  "CHR ''\<newline>'' \<notin> set l \<Longrightarrow> split_lines (l @ CHR ''\<newline>'' # rest) = l # split_lines rest"
  by (induction l) auto

lemma split_lines_rows:
  "\<forall>x \<in> set xs. CHR ''\<newline>'' \<notin> set (g x) \<Longrightarrow>
     split_lines (concat (map (\<lambda>x. g x @ [CHR ''\<newline>'']) xs)) = map g xs"
  by (induction xs) (auto simp: split_lines_line)

lemma split_lines_append:
  "c \<noteq> [] \<Longrightarrow> last c = CHR ''\<newline>'' \<Longrightarrow> split_lines (c @ r) = split_lines c @ split_lines r"
proof (induction c)
  case Nil
  then show ?case by simp
next
  case (Cons a c)
  show ?case
  proof (cases "c = []")
    case True
    with Cons.prems show ?thesis by simp
  next
    case False
    with Cons have ih: "split_lines (c @ r) = split_lines c @ split_lines r" by simp
    from False have "split_lines c \<noteq> []" by (cases c) (auto split: list.splits)
    then show ?thesis using ih by (auto split: list.splits)
  qed
qed

lemma digit_char_in: "digit_char d \<in> set ''0123456789''"
  unfolding digit_char_def by (rule nth_mem) simp

lemma digit_char_not_newline: "digit_char d \<noteq> CHR ''\<newline>''"
  using digit_char_in [of d] by auto

lemma show_nat_no_newline: "CHR ''\<newline>'' \<notin> set (show_nat n)"
proof (induction n rule: show_nat.induct)
  case (1 n)
  then show ?case
    by (subst show_nat.simps) (auto simp: digit_char_not_newline [symmetric])
qed

lemma show_int_no_newline: "CHR ''\<newline>'' \<notin> set (show_int i)"
  by (simp add: show_int_def show_nat_no_newline)

lemma fmt_2f_no_newline: "CHR ''\<newline>'' \<notin> set (fmt_2f t)"
  by (cases t) (auto simp: Let_def show_nat_no_newline digit_char_not_newline [symmetric])

lemma row_line_no_newline: "CHR ''\<newline>'' \<notin> set (row_line i t)"
  by (simp add: row_line_def show_int_no_newline fmt_2f_no_newline)

lemma row_line_not_header: "row_line i t \<noteq> header_line"
  by (simp add: row_line_def header_line_def)

lemma split_lines_logged_rows:
  "split_lines (logged_rows celsius w i n) =
     map (\<lambda>j. row_line (i + int j) (celsius (reading_at w j))) [0..<n]"
  unfolding logged_rows_def
  by (rule split_lines_rows) (simp add: row_line_no_newline)

lemma header_not_in_logged_rows:
  "header_line \<notin> set (split_lines (logged_rows celsius w i n))"
  by (auto simp: split_lines_logged_rows row_line_not_header [THEN not_sym])

lemma logged_rows_last:
  "logged_rows celsius w i n \<noteq> [] \<Longrightarrow> last (logged_rows celsius w i n) = CHR ''\<newline>''"
  by (cases n) (simp_all add: logged_rows_def)

lemma header_no_newline: "CHR ''\<newline>'' \<notin> set header_line"
  by (simp add: header_line_def)

section \<open>The thermistor log\<close>

lemma row_24_98:
  "row_line 0 float_24_98 = ''#0, 24.98'' @ [CHR 0xC2, CHR 0xB0] @ ''C''"
  by (simp add: row_line_def float_24_98_def show_int_def show_nat.simps hundredths_def
      digit_char_def Let_def)

lemma logged_rows_one:
  "logged_rows celsius w 0 (nat 1) = row_line 0 (celsius (reading_at w 0)) @ [CHR ''\<newline>'']"
  by (simp add: logged_rows_def)

text \<open>
  Claim C1. On a store where the file is absent or empty, a call whose \<open>fopen\<close> succeeds
  leaves the header line \<open>index,temperature_C\<close> followed by one row per sample, of the
  form \<open>#index, temperature\<close> with the degree sign and \<open>C\<close>, the temperature printed
  with two decimals, the indices \<open>0\<close> to \<open>samples - 1\<close> in the order of the
  iterations; and with one sample whose temperature is 24.98 the file is exactly the
  header line and the row \<open>#0, 24.98\<close> with the degree sign and \<open>C\<close>.
\<close>

theorem thermistor_log_on_empty_store:
  assumes "store_ok w path" and "file_bytes w path = []"
  shows "\<exists>w' c. log_thermistor_samples_csv celsius path samples period w = Inr w'
     \<and> files w' path = Some c
     \<and> c = ''index,temperature_C\<newline>''
           @ concat (map (\<lambda>j. ''#'' @ show_int (int j) @ '', ''
                                @ fmt_2f (celsius (reading_at w j))
                                @ [CHR 0xC2, CHR 0xB0] @ ''C\<newline>'')
                       [0..<nat samples])
     \<and> split_lines c = ''index,temperature_C''
           # map (\<lambda>j. row_line (int j) (celsius (reading_at w j))) [0..<nat samples]
     \<and> (samples = 1 \<and> celsius (reading_at w 0) = float_24_98 \<longrightarrow>
          c = ''index,temperature_C\<newline>#0, 24.98'' @ [CHR 0xC2, CHR 0xB0] @ ''C\<newline>'')"
proof -
  obtain w' where
    run: "log_thermistor_samples_csv celsius path samples period w = Inr w'"
    and c: "files w' path = Some (header_line @ [CHR ''\<newline>'']
          @ logged_rows celsius w 0 (nat samples))"
    using log_thermistor_closed [OF assms(1), of celsius samples period] assms(2) by auto
  let ?c = "header_line @ [CHR ''\<newline>''] @ logged_rows celsius w 0 (nat samples)"
  have shape: "?c = ''index,temperature_C\<newline>''
           @ concat (map (\<lambda>j. ''#'' @ show_int (int j) @ '', ''
                                @ fmt_2f (celsius (reading_at w j))
                                @ [CHR 0xC2, CHR 0xB0] @ ''C\<newline>'')
                       [0..<nat samples])"
    by (simp add: header_line_def logged_rows_def row_line_def)
  have "split_lines ?c = header_line # split_lines (logged_rows celsius w 0 (nat samples))"
    using split_lines_line [OF header_no_newline] by simp
  then have lines: "split_lines ?c = ''index,temperature_C''
           # map (\<lambda>j. row_line (int j) (celsius (reading_at w j))) [0..<nat samples]"
    by (simp add: split_lines_logged_rows header_line_def)
  have one: "?c = ''index,temperature_C\<newline>#0, 24.98'' @ [CHR 0xC2, CHR 0xB0] @ ''C\<newline>''"
    if "samples = 1" and "celsius (reading_at w 0) = float_24_98"
    using that logged_rows_one [of celsius w] by (simp add: row_24_98 header_line_def)
  show ?thesis
    using run c shape lines one by blast
qed

lemma bench_reading: "reading_at (bench_world (steady_feed 2048)) j = 2048"
  by (simp add: reading_at_closed bench_world_def steady_feed_def raw_of_def raw_sum_wrap
      wrap32_def signed_divide_int_def)

theorem thermistor_log_on_empty_store_witness:
  "store_ok (bench_world (steady_feed 2048)) TEMP_PATH
   \<and> file_bytes (bench_world (steady_feed 2048)) TEMP_PATH = []
   \<and> (\<exists>w'. log_thermistor_samples_csv room_celsius TEMP_PATH 1 2000
                (bench_world (steady_feed 2048)) = Inr w'
          \<and> files w' TEMP_PATH =
              Some (''index,temperature_C\<newline>#0, 24.98'' @ [CHR 0xC2, CHR 0xB0]
                      @ ''C\<newline>''))"
  using thermistor_log_on_empty_store
    [of "bench_world (steady_feed 2048)" TEMP_PATH room_celsius 1 2000]
  by (auto simp: bench_world_def file_bytes_def room_celsius_def)

lemma log_runs_keep_header:
  "store_ok w path \<Longrightarrow> files w path = Some c \<Longrightarrow> header_once c \<Longrightarrow>
     \<exists>w' c'. log_runs celsius path calls w = Inr w' \<and> files w' path = Some c' \<and> header_once c'"
proof (induction calls arbitrary: w c)
  case Nil
  then show ?case by simp
next
  case (Cons call calls)
  obtain samples period where call: "call = (samples, period)" by (cases call)
  let ?rows = "logged_rows celsius w 0 (nat samples)"
  from Cons.prems have c: "c \<noteq> []" "last c = CHR ''\<newline>''"
    "hd (split_lines c) = header_line" "count_list (split_lines c) header_line = 1"
    and bytes: "file_bytes w path = c"
    by (simp_all add: header_once_def file_bytes_def)
  obtain w1 where
    run: "log_thermistor_samples_csv celsius path samples period w = Inr w1"
    and f1: "files w1 path = Some (c @ ?rows)"
    and s1: "store_ok w1 = store_ok w"
    using log_thermistor_closed [OF Cons.prems(1), of celsius samples period] bytes c(1)
    by auto
  have sl: "split_lines (c @ ?rows) = split_lines c @ split_lines ?rows"
    using c by (intro split_lines_append)
  have ne: "split_lines c \<noteq> []"
    using c(1) by (cases c) (auto split: list.splits)
  have cnt: "count_list (split_lines ?rows) header_line = 0"
    using header_not_in_logged_rows by simp
  have lst: "last (c @ ?rows) = CHR ''\<newline>''"
    using c(2) logged_rows_last [of celsius w 0 "nat samples"]
    by (cases "?rows = []") (simp_all add: last_append)
  have "header_once (c @ ?rows)"
    using c ne cnt lst by (simp add: header_once_def sl)
  then obtain w' c' where
    "log_runs celsius path calls w1 = Inr w'" "files w' path = Some c'" "header_once c'"
    using Cons.IH [of w1 "c @ ?rows"] Cons.prems(1) s1 f1 by auto
  then show ?case
    using run call by auto
qed

lemma header_once_first_call:
  "header_once (header_line @ [CHR ''\<newline>''] @ logged_rows celsius w 0 n)"
proof -
  have "split_lines (header_line @ CHR ''\<newline>'' # logged_rows celsius w 0 n)
      = header_line # split_lines (logged_rows celsius w 0 n)"
    by (rule split_lines_line [OF header_no_newline])
  moreover have "count_list (split_lines (logged_rows celsius w 0 n)) header_line = 0"
    using header_not_in_logged_rows by simp
  moreover have "last (header_line @ CHR ''\<newline>'' # logged_rows celsius w 0 n) = CHR ''\<newline>''"
    using logged_rows_last [of celsius w 0 n]
    by (cases "logged_rows celsius w 0 n = []") (simp_all add: last_append)
  ultimately show ?thesis
    by (simp add: header_once_def)
qed

text \<open>
  Claim C4. A call on a file that is not empty at open time appends its rows and nothing
  else, and no row is the header line. A call on a file that is absent or empty at open
  time writes the header first. Hence, over the life of a file that starts absent or
  empty, after any number (at least one) of calls with any sample counts: the file is
  not empty, its first line is the header, and the header is on exactly one line.
\<close>

theorem header_written_once:
  assumes "store_ok w path"
  shows "(file_bytes w path \<noteq> [] \<longrightarrow>
            (\<exists>w'. log_thermistor_samples_csv celsius path samples period w = Inr w'
               \<and> files w' path = Some (file_bytes w path @ logged_rows celsius w 0 (nat samples))
               \<and> header_line \<notin> set (split_lines (logged_rows celsius w 0 (nat samples)))))
     \<and> (file_bytes w path = [] \<longrightarrow>
            (\<exists>w'. log_thermistor_samples_csv celsius path samples period w = Inr w'
               \<and> files w' path = Some (header_line @ [CHR ''\<newline>'']
                    @ logged_rows celsius w 0 (nat samples))))
     \<and> (file_bytes w path = [] \<and> calls \<noteq> [] \<longrightarrow>
            (\<exists>w' c. log_runs celsius path calls w = Inr w' \<and> files w' path = Some c
               \<and> c \<noteq> [] \<and> hd (split_lines c) = header_line
               \<and> count_list (split_lines c) header_line = 1))"
proof (intro conjI impI)
  assume "file_bytes w path \<noteq> []"
  then show "\<exists>w'. log_thermistor_samples_csv celsius path samples period w = Inr w'
               \<and> files w' path = Some (file_bytes w path @ logged_rows celsius w 0 (nat samples))
               \<and> header_line \<notin> set (split_lines (logged_rows celsius w 0 (nat samples)))"
    using log_thermistor_closed [OF assms, of celsius samples period]
      header_not_in_logged_rows [of celsius w 0 "nat samples"] by auto
next
  assume "file_bytes w path = []"
  then show "\<exists>w'. log_thermistor_samples_csv celsius path samples period w = Inr w'
               \<and> files w' path = Some (header_line @ [CHR ''\<newline>'']
                    @ logged_rows celsius w 0 (nat samples))"
    using log_thermistor_closed [OF assms, of celsius samples period] by auto
next
  assume a: "file_bytes w path = [] \<and> calls \<noteq> []"
  then obtain s p rest where calls: "calls = (s, p) # rest"
    by (cases calls) auto
  obtain w1 where
    run: "log_thermistor_samples_csv celsius path s p w = Inr w1"
    and f1: "files w1 path = Some (header_line @ [CHR ''\<newline>'']
          @ logged_rows celsius w 0 (nat s))"
    and s1: "store_ok w1 = store_ok w"
    using log_thermistor_closed [OF assms, of celsius s p] a by auto
  obtain w' c' where
    "log_runs celsius path rest w1 = Inr w'" "files w' path = Some c'" "header_once c'"
    using log_runs_keep_header [of w1 path _ celsius rest] f1 s1 assms
      header_once_first_call [of celsius w "nat s"] by auto
  then show "\<exists>w' c. log_runs celsius path calls w = Inr w' \<and> files w' path = Some c
               \<and> c \<noteq> [] \<and> hd (split_lines c) = header_line
               \<and> count_list (split_lines c) header_line = 1"
    using run calls by (auto simp: header_once_def)
qed

end
